theory Spec2Isabelle
  imports Main "HOL-Library.Word" "HOL-Library.Signed_Division" "HOL-Library.Multiset"
begin

section \<open>The rate limiter (package rate, QueueRateLimiter.Allow)\<close>

subsection \<open>The Redis commands that Allow issues\<close>

text \<open>
  Allow talks to Redis through four commands on one key: ZREMRANGEBYSCORE, ZCARD, ZADD and
  EXPIRE. A sorted set is a finite set of members, each with one score; it is kept here as a
  list of (member, score) pairs with pairwise different members, most recently written
  member first (\<open>zset_ok\<close> below; every command preserves it). The members and scores that
  Allow writes are Unix times in whole seconds (an int64, sent as the member and, converted to
  float64, as the score; the conversion is exact below 2^53), so both are integers here.
  A key without a sorted set is the empty list: Redis removes a key whose sorted set
  becomes empty, together with its time to live.

  The time to live of a key is kept in whole seconds, as EXPIRE takes it; Redis deletes the
  key at once when the seconds given are not positive. The client's \<open>Expire\<close> takes a Go
  duration (a time.Duration, that is an int64 of nanoseconds) and sends it as seconds,
  rounded towards zero, and as one second when the duration is positive and shorter than a
  second (\<open>formatSec\<close>). The passing of time on the Redis server, and with it the later
  removal of an expired key, is not part of the model.
\<close>

type_synonym duration = "64 word"

type_synonym zset = "(int \<times> int) list"

record redis =
  zsets :: "string \<Rightarrow> zset"
  ttl :: "string \<Rightarrow> int option"

definition redis_empty :: redis where
  "redis_empty = \<lparr>zsets = (\<lambda>k. []), ttl = (\<lambda>k. None)\<rparr>"

definition zset_ok :: "zset \<Rightarrow> bool" where
  "zset_ok z = distinct (map fst z)"

datatype cmd =
    ZRemRangeByScore string int int
  | ZCard string
  | ZAdd string int int
  | EXPIRE string int

datatype reply = IntCmd int | BoolCmd bool

definition zremrangebyscore :: "int \<Rightarrow> int \<Rightarrow> zset \<Rightarrow> zset" where
  "zremrangebyscore lo hi z = filter (\<lambda>(m, s). \<not> (lo \<le> s \<and> s \<le> hi)) z"

definition zadd :: "int \<Rightarrow> int \<Rightarrow> zset \<Rightarrow> zset" where
  "zadd score member z = (member, score) # filter (\<lambda>(m, s). m \<noteq> member) z"

definition del_key :: "string \<Rightarrow> redis \<Rightarrow> redis" where
  "del_key key r = r\<lparr>zsets := (zsets r)(key := []), ttl := (ttl r)(key := None)\<rparr>"

fun exec_cmd :: "cmd \<Rightarrow> redis \<Rightarrow> reply \<times> redis" where
  "exec_cmd (ZRemRangeByScore key lo hi) r =
     (let z = zsets r key; z' = zremrangebyscore lo hi z;
          r' = (if z' = [] then del_key key r else r\<lparr>zsets := (zsets r)(key := z')\<rparr>)
      in (IntCmd (int (length z) - int (length z')), r'))"
| "exec_cmd (ZCard key) r = (IntCmd (int (length (zsets r key))), r)"
| "exec_cmd (ZAdd key score member) r =
     (let z = zsets r key
      in (IntCmd (if member \<in> fst ` set z then 0 else 1),
          r\<lparr>zsets := (zsets r)(key := zadd score member z)\<rparr>))"
| "exec_cmd (EXPIRE key secs) r =
     (if zsets r key = [] then (BoolCmd False, r)
      else if secs \<le> 0 then (BoolCmd True, del_key key r)
      else (BoolCmd True, r\<lparr>ttl := (ttl r)(key \<mapsto> secs)\<rparr>))"

text \<open>The client's \<open>Expire(key, expiration)\<close>: the EXPIRE command with the duration in seconds.\<close>

definition formatSec :: "duration \<Rightarrow> int" where
  "formatSec dur =
     (if 0 < sint dur \<and> sint dur < 1000000000 then 1 else sint dur sdiv 1000000000)"

definition Expire :: "string \<Rightarrow> duration \<Rightarrow> cmd" where
  "Expire key expiration = EXPIRE key (formatSec expiration)"

text \<open>A pipeline runs its commands in the order they were queued and collects the replies.\<close>

fun Exec :: "cmd list \<Rightarrow> redis \<Rightarrow> reply list \<times> redis" where
  "Exec [] r = ([], r)"
| "Exec (c # cs) r =
     (case exec_cmd c r of (res, r') \<Rightarrow>
        (case Exec cs r' of (ress, r'') \<Rightarrow> (res # ress, r'')))"

subsection \<open>RateLimit, QueueConfig and Allow\<close>

record RateLimit =
  Window :: duration
  MaxJobs :: int

record QueueConfig =
  Name :: string
  RateLimit :: RateLimit

datatype rate_error = RedisPipelineError | NotAnIntCmd

text \<open>
  \<open>int64(Window.Seconds())\<close>. Seconds() is \<open>float64(sec) + float64(nsec)/1e9\<close> with
  \<open>sec = d / Second\<close> and \<open>nsec = d % Second\<close>, both truncated towards zero; \<open>int64\<close>
  truncates the sum towards zero. The two conversions are exact, the quotient and the sum are
  each rounded to the nearest float64. So the result is \<open>sec\<close>, unless the sum rounds to the
  next whole number away from zero. For a magnitude of \<open>sec\<close> seconds and \<open>nsec\<close> nanoseconds
  that happens when \<open>sec\<close> is at least 1, so that the float64 values around the sum lie
  \<open>2^(k - 52)\<close> apart, where \<open>2^k \<le> sec < 2^(k + 1)\<close>, and \<open>nsec/1e9\<close> is within
  \<open>2^(k - 53) + 2^(-54)\<close> of 1: that is from \<open>2^24\<close> seconds on, for a nanosecond part just
  below a second.
\<close>

function bit_length :: "int \<Rightarrow> nat" where
  "bit_length n = (if n \<le> 0 then 0 else Suc (bit_length (n div 2)))"
  by pat_completeness auto
termination
  by (relation "measure nat") auto

declare bit_length.simps [simp del]

definition rounds_to_next :: "int \<Rightarrow> int \<Rightarrow> bool" where
  "rounds_to_next sec nsec =
     (0 < nsec \<and> 1 \<le> sec \<and>
      (1000000000 - nsec) * 2 ^ 54 < 1000000000 * (2 ^ bit_length sec + 1))"

definition Seconds :: "duration \<Rightarrow> int" where
  "Seconds d =
     (let sec = sint d sdiv 1000000000; nsec = sint d smod 1000000000
      in if rounds_to_next \<bar>sec\<bar> \<bar>nsec\<bar> then sec + sgn (sint d) else sec)"

definition rate_key :: "QueueConfig \<Rightarrow> string \<Rightarrow> string" where
  "rate_key config identifier = ''queue_rate_limit:'' @ Name config @ '':'' @ identifier"

text \<open>
  Allow, with the reading of the clock (\<open>now\<close>, Unix seconds) and the fate of the pipeline
  (\<open>exec_ok\<close>: whether \<open>pipe.Exec\<close> came back without an error) as parameters. On an error
  the Go function returns false and the error; on success the comparison of the ZCARD reply
  with MaxJobs, and Redis is left in the state after the four commands.
\<close>

definition Allow ::
  "QueueConfig \<Rightarrow> int \<Rightarrow> bool \<Rightarrow> string \<Rightarrow> redis \<Rightarrow> rate_error + (bool \<times> redis)" where
  "Allow config now exec_ok identifier r =
     (let key = rate_key config identifier;
          windowStart = now - Seconds (Window (RateLimit config));
          pipe = [ZRemRangeByScore key 0 windowStart,
                  ZCard key,
                  ZAdd key now now,
                  Expire key (Window (RateLimit config) * 2)]
      in if \<not> exec_ok then Inl RedisPipelineError
         else (case Exec pipe r of (results, r') \<Rightarrow>
                 (case results ! 1 of
                    IntCmd cnt \<Rightarrow> Inr (cnt \<le> MaxJobs (RateLimit config), r')
                  | BoolCmd b \<Rightarrow> Inl NotAnIntCmd)))"

text \<open>A run of calls for one identifier, one clock reading per call; it stops at an error.\<close>

fun Allows :: "QueueConfig \<Rightarrow> string \<Rightarrow> int list \<Rightarrow> redis \<Rightarrow> rate_error + (bool list \<times> redis)" where
  "Allows config identifier [] r = Inr ([], r)"
| "Allows config identifier (now # nows) r =
     (case Allow config now True identifier r of
        Inl e \<Rightarrow> Inl e
      | Inr (ok, r') \<Rightarrow>
          (case Allows config identifier nows r' of
             Inl e \<Rightarrow> Inl e
           | Inr (oks, r'') \<Rightarrow> Inr (ok # oks, r'')))"

text \<open>The state of the key's sorted set after the first three commands of the pipeline.\<close>

definition pruned :: "QueueConfig \<Rightarrow> int \<Rightarrow> zset \<Rightarrow> zset" where
  "pruned config now z = zremrangebyscore 0 (now - Seconds (Window (RateLimit config))) z"

text \<open>What a call left in Redis for a key, read off the result of Allow.\<close>

definition ttl_after :: "rate_error + (bool \<times> redis) \<Rightarrow> string \<Rightarrow> int option" where
  "ttl_after res key = (case res of Inl e \<Rightarrow> None | Inr (ok, r) \<Rightarrow> ttl r key)"

definition zset_after :: "rate_error + (bool \<times> redis) \<Rightarrow> string \<Rightarrow> zset" where
  "zset_after res key = (case res of Inl e \<Rightarrow> [] | Inr (ok, r) \<Rightarrow> zsets r key)"

text \<open>Limiters used as examples: three jobs per second, per ten seconds, per 750
  milliseconds, and with the zero window of an unset RateLimit.\<close>

definition limit_750ms :: QueueConfig where
  "limit_750ms = \<lparr>Name = ''mail'', RateLimit = \<lparr>Window = 750000000, MaxJobs = 3\<rparr>\<rparr>"

definition limit_unset :: QueueConfig where
  "limit_unset = \<lparr>Name = ''mail'', RateLimit = \<lparr>Window = 0, MaxJobs = 3\<rparr>\<rparr>"

definition mail_limit :: QueueConfig where
  "mail_limit = \<lparr>Name = ''mail'', RateLimit = \<lparr>Window = 1000000000, MaxJobs = 3\<rparr>\<rparr>"

definition mail_limit_10s :: QueueConfig where
  "mail_limit_10s = \<lparr>Name = ''mail'', RateLimit = \<lparr>Window = 10000000000, MaxJobs = 3\<rparr>\<rparr>"

section \<open>The event bus (package events)\<close>

text \<open>
  A handler is a Go function value \<open>func(interface{})\<close>. The bus only stores handlers and
  hands them to goroutines, so the handler type \<open>'h\<close> is left open, as is the type \<open>'d\<close> of
  the payload. What calling a handler does is a parameter \<open>call\<close> of the goroutine body: on
  the state \<open>'s\<close> that handlers work on, a call either returns or panics with a value (kept
  as the text that \<open>%v\<close> prints).

  The process is the bus, the lines written through the package's logger (level and
  message; the logger's prefix with time and file is left out), the goroutines that were
  started and have not run yet, the handler calls made so far, and the state of the handlers.
  The read-write mutex of the bus makes On and the map lookup of Emit atomic; both are one
  step here.
\<close>

datatype level = INFO | ERROR

type_synonym log_line = "level \<times> string"

datatype 's exit = Returns 's | Panics string 's

record 'h EventBus =
  handlers :: "string \<rightharpoonup> 'h list"

record ('h, 'd, 's) process =
  bus :: "'h EventBus"
  console :: "log_line list"
  goroutines :: "('h \<times> 'd) list"
  invoked :: "('h \<times> 'd) list"
  app :: 's

definition NewEventBus :: "'h EventBus" where
  "NewEventBus = \<lparr>handlers = Map.empty\<rparr>"

definition new_process :: "'s \<Rightarrow> ('h, 'd, 's) process" where
  "new_process s = \<lparr>bus = NewEventBus, console = [], goroutines = [], invoked = [], app = s\<rparr>"

text \<open>\<open>bus.handlers[event]\<close> read as a slice: the nil slice when the key is absent.\<close>

definition registered :: "'h EventBus \<Rightarrow> string \<Rightarrow> 'h list" where
  "registered b event = (case handlers b event of None \<Rightarrow> [] | Some hs \<Rightarrow> hs)"

definition On :: "string \<Rightarrow> 'h \<Rightarrow> ('h, 'd, 's) process \<Rightarrow> ('h, 'd, 's) process" where
  "On event handler p =
     p\<lparr>bus := (bus p)\<lparr>handlers := (handlers (bus p))(event \<mapsto> registered (bus p) event @ [handler])\<rparr>,
       console := console p @ [(INFO, ''Registered handler for event: '' @ event)]\<rparr>"

text \<open>The loop of Emit: one \<open>go\<close> statement per handler, in the order of the slice.\<close>

fun start_goroutines :: "'h list \<Rightarrow> 'd \<Rightarrow> ('h, 'd, 's) process \<Rightarrow> ('h, 'd, 's) process" where
  "start_goroutines [] data p = p"
| "start_goroutines (h # hs) data p =
     start_goroutines hs data (p\<lparr>goroutines := goroutines p @ [(h, data)]\<rparr>)"

definition Emit :: "string \<Rightarrow> 'd \<Rightarrow> ('h, 'd, 's) process \<Rightarrow> ('h, 'd, 's) process" where
  "Emit event data p =
     (case handlers (bus p) event of
        None \<Rightarrow> p
      | Some hs \<Rightarrow>
          start_goroutines hs data
            (p\<lparr>console := console p @ [(INFO, ''Emitting event: '' @ event)]\<rparr>))"

text \<open>
  A function body with one deferred function that calls \<open>recover\<close>: when the body panics,
  the deferred function runs with the panic value and the function then returns normally,
  unless the deferred function panics itself.
\<close>

definition defer_recover :: "'a exit \<Rightarrow> (string \<Rightarrow> 'a \<Rightarrow> 'a exit) \<Rightarrow> 'a exit" where
  "defer_recover body recovered =
     (case body of Returns a \<Rightarrow> Returns a | Panics v a \<Rightarrow> recovered v a)"

text \<open>
  The goroutine that Emit starts for a handler: \<open>h(data)\<close> under the deferred recover, which
  logs \<open>Panic in event handler: panic: v\<close> at level ERROR.
\<close>

definition handler_goroutine ::
  "('h \<Rightarrow> 'd \<Rightarrow> 's \<Rightarrow> 's exit) \<Rightarrow> 'h \<times> 'd \<Rightarrow> ('h, 'd, 's) process \<Rightarrow> ('h, 'd, 's) process exit" where
  "handler_goroutine call g p =
     (case g of (h, data) \<Rightarrow>
        defer_recover
          (case call h data (app p) of
             Returns s \<Rightarrow> Returns (p\<lparr>invoked := invoked p @ [(h, data)], app := s\<rparr>)
           | Panics v s \<Rightarrow> Panics v (p\<lparr>invoked := invoked p @ [(h, data)], app := s\<rparr>))
          (\<lambda>v q. Returns (q\<lparr>console := console q @ [(ERROR, ''Panic in event handler: panic: '' @ v)]\<rparr>)))"

text \<open>
  A schedule picks, step by step, which of the started goroutines runs next (an index into
  the list of those that have not run; an index out of range is a step in which none runs).
  A goroutine that ends in a panic ends the whole process: the run stops with \<open>Panics\<close>.
\<close>

fun run_schedule ::
  "('h \<Rightarrow> 'd \<Rightarrow> 's \<Rightarrow> 's exit) \<Rightarrow> nat list \<Rightarrow> ('h, 'd, 's) process \<Rightarrow> ('h, 'd, 's) process exit" where
  "run_schedule call [] p = Returns p"
| "run_schedule call (i # sched) p =
     (if i < length (goroutines p)
      then (case handler_goroutine call (goroutines p ! i)
                   (p\<lparr>goroutines := take i (goroutines p) @ drop (Suc i) (goroutines p)\<rparr>) of
              Returns p' \<Rightarrow> run_schedule call sched p'
            | Panics v p' \<Rightarrow> Panics v p')
      else run_schedule call sched p)"

text \<open>The bus after a list of registrations, made in order on a new bus.\<close>

fun On_all :: "(string \<times> 'h) list \<Rightarrow> ('h, 'd, 's) process \<Rightarrow> ('h, 'd, 's) process" where
  "On_all [] p = p"
| "On_all ((event, handler) # regs) p = On_all regs (On event handler p)"

text \<open>An example of handlers: handler 0 panics, every other handler adds one to a counter.\<close>

definition counting :: "nat \<Rightarrow> int \<Rightarrow> nat \<Rightarrow> nat exit" where
  "counting h data n = (if h = 0 then Panics ''boom'' n else Returns (Suc n))"

section \<open>The scheduler (package tasks, scheduler.go)\<close>

text \<open>
  A Go error is kept as a value: one that a library returned, or one built by
  \<open>fmt.Errorf\<close> with \<open>%w\<close> around another error.
\<close>

datatype go_error = LibError string | Errorf string go_error

record 'o Task =
  typename :: string
  payload :: string
  opts :: "'o list"

definition NewTask :: "string \<Rightarrow> string \<Rightarrow> 'o list \<Rightarrow> 'o Task" where
  "NewTask taskType bytes options = \<lparr>typename = taskType, payload = bytes, opts = options\<rparr>"

text \<open>
  RegisterCustomTask. The asynq scheduler's \<open>Register\<close> is a parameter: given the spec and
  the task it returns an error or the entry ID, and the scheduler's new state. The Go
  function returns one value, of type \<open>error\<close>: \<open>None\<close> is nil.
\<close>

definition RegisterCustomTask ::
  "(string \<Rightarrow> 'o Task \<Rightarrow> 'sch \<Rightarrow> (go_error + string) \<times> 'sch) \<Rightarrow>
   string \<Rightarrow> string \<Rightarrow> string \<Rightarrow> 'o list \<Rightarrow> 'sch \<times> log_line list \<Rightarrow>
   go_error option \<times> ('sch \<times> log_line list)" where
  "RegisterCustomTask Register spec taskType bytes options st =
     (case st of (sch, out) \<Rightarrow>
        (case Register spec (NewTask taskType bytes options) sch of
           (Inl err, sch') \<Rightarrow>
             (Some (Errorf ''failed to register custom task: %w'' err), (sch', out))
         | (Inr entryID, sch') \<Rightarrow>
             (None, (sch', out @ [(INFO, ''registered custom task '' @ taskType @ '' '' @ spec
                                         @ '' '' @ entryID)]))))"

text \<open>Two examples of \<open>Register\<close>: one that accepts every spec under a given entry ID, and one
  that accepts only \<open>@every 1m\<close> and numbers its entries.\<close>

definition accept_as :: "string \<Rightarrow> string \<Rightarrow> 'o Task \<Rightarrow> unit \<Rightarrow> (go_error + string) \<times> unit" where
  "accept_as entryID spec task sch = (Inr entryID, sch)"

definition every_minute_only :: "string \<Rightarrow> 'o Task \<Rightarrow> nat \<Rightarrow> (go_error + string) \<times> nat" where
  "every_minute_only spec task n =
     (if spec = ''@every 1m'' then (Inr (replicate (Suc n) CHR ''e''), Suc n)
      else (Inl (LibError ''bad spec''), n))"

text \<open>
  The CronSchedule option. \<open>cron.ParseStandard\<close> and the \<open>Next\<close> of the schedule it returns
  belong to the cron library and are parameters, as is the reading of the clock. Times are
  nanoseconds since the epoch; of a TaskInfo only NextProcessAt is named, the other fields
  are the rest of the record.
\<close>

record cronSchedule =
  expr :: string

definition CronSchedule :: "string \<Rightarrow> cronSchedule" where
  "CronSchedule e = \<lparr>expr = e\<rparr>"

record TaskInfo =
  NextProcessAt :: int

definition Hour :: int where
  "Hour = 3600000000000"

definition Apply ::
  "(string \<Rightarrow> go_error + 'c) \<Rightarrow> ('c \<Rightarrow> int \<Rightarrow> int) \<Rightarrow> int \<Rightarrow> cronSchedule \<Rightarrow>
   'a TaskInfo_scheme \<Rightarrow> 'a TaskInfo_scheme" where
  "Apply ParseStandard Next now s info =
     (case ParseStandard (expr s) of
        Inl err \<Rightarrow> info\<lparr>NextProcessAt := now + 1 * Hour\<rparr>
      | Inr schedule \<Rightarrow> info\<lparr>NextProcessAt := Next schedule now\<rparr>)"

text \<open>An example of a parser and its schedules: only \<open>@every 1m\<close> parses, to a delay of sixty
  seconds.\<close>

definition parse_every_minute :: "string \<Rightarrow> go_error + int" where
  "parse_every_minute e =
     (if e = ''@every 1m'' then Inr 60000000000 else Inl (LibError ''bad spec''))"

definition next_after_delay :: "int \<Rightarrow> int \<Rightarrow> int" where
  "next_after_delay delay now = now + delay"

section \<open>The worker server (package tasks, server.go)\<close>

definition QueueCritical :: string where "QueueCritical = ''critical''"
definition QueueDefault :: string where "QueueDefault = ''default''"
definition QueueLow :: string where "QueueLow = ''low''"

record RedisClientOpt =
  Addr :: string
  Username :: string
  Password :: string
  DB :: int

text \<open>The Queues of an asynq.Config are a Go map from queue name to weight, written here as
  the list of the map literal's entries.\<close>

record Config =
  Concurrency :: int
  Queues :: "(string \<times> int) list"
  StrictPriority :: bool

text \<open>\<open>asynq.NewServer\<close> is kept as the pair of its arguments.\<close>

record asynq_Server =
  client_opt :: RedisClientOpt
  server_cfg :: Config

record ('t, 'l) Server =
  server :: asynq_Server
  handler :: 't
  logger :: 'l

definition NewServer :: "string \<Rightarrow> string \<Rightarrow> string \<Rightarrow> int \<Rightarrow> 't \<Rightarrow> 'l \<Rightarrow> ('t, 'l) Server" where
  "NewServer redisAddr username password db h lg =
     \<lparr>server =
        \<lparr>client_opt = \<lparr>Addr = redisAddr, Username = username, Password = password, DB = db\<rparr>,
         server_cfg = \<lparr>Concurrency = 10,
                       Queues = [(QueueCritical, 6), (QueueDefault, 3), (QueueLow, 1)],
                       StrictPriority = True\<rparr>\<rparr>,
      handler = h,
      logger = lg\<rparr>"

text \<open>
  What asynq does with this configuration is the library's, not the repository's. As the
  library documents it: with StrictPriority the processor asks the queues in the order of
  their weights, highest first, every time it takes a task, and the broker gives it a task
  of the first queue in that order that has one ready; without StrictPriority the order is
  drawn at random for every task (here: \<open>shuffled\<close>).
\<close>

definition sortByPriority :: "(string \<times> int) list \<Rightarrow> string list" where
  "sortByPriority qs = map fst (sort_key (\<lambda>(q, w). - w) qs)"

definition processor_queues :: "Config \<Rightarrow> string list \<Rightarrow> string list" where
  "processor_queues cfg shuffled =
     (if StrictPriority cfg then sortByPriority (Queues cfg) else shuffled)"

definition dequeue_from :: "string list \<Rightarrow> (string \<Rightarrow> nat) \<Rightarrow> string option" where
  "dequeue_from qnames ready = find (\<lambda>q. 0 < ready q) qnames"

text \<open>An example of a broker state: two tasks ready in \<open>low\<close>, one in \<open>default\<close>, none in
  \<open>critical\<close>.\<close>

definition some_ready :: "string \<Rightarrow> nat" where
  "some_ready q = (if q = ''low'' then 2 else if q = ''default'' then 1 else 0)"

section \<open>Properties of the rate limiter\<close>

subsection \<open>What one call does\<close>

lemma formatSec_le_0: "formatSec d \<le> 0 \<longleftrightarrow> sint d \<le> 0"
proof (cases "sint d \<le> 0")
  case True
  then have "sint d sdiv 1000000000 = - ((- sint d) div 1000000000)"
    by (simp add: signed_divide_int_def sgn_if)
  moreover from True have "0 \<le> (- sint d) div 1000000000"
    by simp
  ultimately show ?thesis using True by (simp add: formatSec_def)
next
  case False
  then have "sint d sdiv 1000000000 = sint d div 1000000000"
    by (simp add: signed_divide_int_def sgn_if)
  moreover have "1 \<le> sint d div 1000000000" if "\<not> sint d < 1000000000"
    using that by (simp add: pos_imp_zdiv_pos_iff)
  ultimately show ?thesis using False by (auto simp: formatSec_def)
qed

lemma Allow_result:
  "Allow config now True identifier r =
     Inr (int (length (pruned config now (zsets r (rate_key config identifier))))
            \<le> MaxJobs (RateLimit config),
          (if sint (Window (RateLimit config) * 2) \<le> 0 then del_key (rate_key config identifier) r
           else r\<lparr>zsets := (zsets r)(rate_key config identifier :=
                       zadd now now (pruned config now (zsets r (rate_key config identifier)))),
                  ttl := (ttl r)(rate_key config identifier \<mapsto>
                            formatSec (Window (RateLimit config) * 2))\<rparr>))"
  by (simp add: Allow_def Let_def pruned_def del_key_def zadd_def Expire_def formatSec_le_0)

lemma Allow_error: "Allow config now False identifier r = Inl RedisPipelineError"
  by (simp add: Allow_def Let_def)

lemma pruned_zadd_pruned:
  "zadd now now (pruned config now (zadd now now (pruned config now z))) =
   zadd now now (pruned config now z)"
  by (induction z) (auto simp: zadd_def pruned_def zremrangebyscore_def)

lemma length_zadd_pruned:
  "length (zadd now now (pruned config now z)) \<le> Suc (length z)"
proof -
  have "length (filter (\<lambda>(m, s). m \<noteq> now) (pruned config now z)) \<le> length (pruned config now z)"
    by (rule length_filter_le)
  also have "\<dots> \<le> length z"
    unfolding pruned_def zremrangebyscore_def by (rule length_filter_le)
  finally show ?thesis by (simp add: zadd_def)
qed

text \<open>Every command keeps the members of a sorted set pairwise different, so ZCARD is the
  length of the list.\<close>

lemma zset_ok_Nil [simp]: "zset_ok []"
  by (simp add: zset_ok_def)

lemma zset_ok_pruned: "zset_ok z \<Longrightarrow> zset_ok (pruned config now z)"
  by (simp add: zset_ok_def pruned_def zremrangebyscore_def distinct_map_filter)

lemma zset_ok_zadd: "zset_ok z \<Longrightarrow> zset_ok (zadd score member z)"
  by (auto simp: zset_ok_def zadd_def distinct_map_filter)

lemma Allow_zset_ok:
  assumes "\<forall>k. zset_ok (zsets r k)" and "Allow config now True identifier r = Inr (ok, r')"
  shows "\<forall>k. zset_ok (zsets r' k)"
  using assms
  by (auto simp: Allow_result del_key_def zset_ok_pruned zset_ok_zadd split: if_splits)

text \<open>The seconds of a window that is not negative are its whole seconds, or one more when
  it has a nanosecond part; the seconds of a negative window are at most minus the whole
  seconds of its magnitude.\<close>

lemma Seconds_nonneg:
  assumes "0 \<le> sint d"
  shows "Seconds d = sint d div 1000000000 \<or>
         (0 < sint d mod 1000000000 \<and> Seconds d = sint d div 1000000000 + 1)"
proof -
  from assms have q: "sint d sdiv 1000000000 = sint d div 1000000000"
    and m: "sint d smod 1000000000 = sint d mod 1000000000"
    by (simp_all add: signed_divide_int_def signed_modulo_int_def sgn_if)
  have a: "\<bar>sint d mod 1000000000\<bar> = sint d mod 1000000000"
    by simp
  show ?thesis
  proof (cases "rounds_to_next \<bar>sint d div 1000000000\<bar> \<bar>sint d mod 1000000000\<bar>")
    case True
    then have pos: "0 < sint d mod 1000000000"
      unfolding a by (simp add: rounds_to_next_def)
    then have "sint d \<noteq> 0" by auto
    with assms have "sgn (sint d) = 1" by (simp add: sgn_if)
    with True pos show ?thesis by (simp add: Seconds_def Let_def q m)
  next
    case False
    then show ?thesis by (simp add: Seconds_def Let_def q m)
  qed
qed

lemma Seconds_neg:
  assumes "sint d < 0"
  shows "Seconds d \<le> - ((- sint d) div 1000000000)"
proof -
  from assms have "sint d sdiv 1000000000 = - ((- sint d) div 1000000000)"
    and "sgn (sint d) = - 1"
    by (simp_all add: signed_divide_int_def sgn_if)
  then show ?thesis by (simp add: Seconds_def Let_def)
qed

text \<open>An entry older than the window, counted in nanoseconds, has a score of at most
  \<open>windowStart\<close>, whatever the sign of the window and however its seconds are rounded.\<close>

lemma older_in_range:
  assumes "s * 1000000000 < now * 1000000000 - sint d"
  shows "s \<le> now - Seconds d"
proof (cases "0 \<le> sint d")
  case True
  have le: "sint d div 1000000000 * 1000000000 \<le> sint d"
    by simp
  from Seconds_nonneg [OF True] show ?thesis
  proof
    assume "Seconds d = sint d div 1000000000"
    with assms le show ?thesis by linarith
  next
    assume r: "0 < sint d mod 1000000000 \<and> Seconds d = sint d div 1000000000 + 1"
    define k where "k = sint d div 1000000000"
    have "sint d = k * 1000000000 + sint d mod 1000000000"
      unfolding k_def by simp
    with r have "k * 1000000000 < sint d" by linarith
    with assms have "s < now - k" by linarith
    with r show ?thesis unfolding k_def by linarith
  qed
next
  case False
  define k where "k = (- sint d) div 1000000000"
  have "(- sint d) mod 1000000000 < 1000000000" by simp
  then have "- sint d < k * 1000000000 + 1000000000"
    unfolding k_def using div_mult_mod_eq [of "- sint d" 1000000000] by linarith
  with assms have "s \<le> now + k" by linarith
  moreover from False have "Seconds d \<le> - k"
    unfolding k_def by (intro Seconds_neg) simp
  ultimately show ?thesis by linarith
qed

lemma sint_double:
  fixes d :: duration
  assumes "0 < sint d" and "sint d < 2 ^ 62"
  shows "sint (d * 2) = 2 * sint d"
proof -
  have "sint (d * 2) = signed_take_bit 63 (sint d * 2)"
    by (simp add: sint_word_mult)
  also have "\<dots> = sint d * 2"
    using assms by (intro signed_take_bit_int_eq_self) auto
  finally show ?thesis by simp
qed

text \<open>The seconds that EXPIRE gets for a positive duration: one for less than a second,
  otherwise the whole seconds of the duration.\<close>

lemma formatSec_pos:
  assumes "0 < sint d"
  shows "if sint d < 1000000000 then formatSec d = 1
         else formatSec d * 1000000000 \<le> sint d \<and> sint d < (formatSec d + 1) * 1000000000"
proof (cases "sint d < 1000000000")
  case True
  with assms show ?thesis by (simp add: formatSec_def)
next
  case False
  from assms have q: "sint d sdiv 1000000000 = sint d div 1000000000"
    by (simp add: signed_divide_int_def sgn_if)
  define k where "k = sint d div 1000000000"
  have "sint d = k * 1000000000 + sint d mod 1000000000"
    unfolding k_def by simp
  moreover have "0 \<le> sint d mod 1000000000" "sint d mod 1000000000 < 1000000000"
    by simp_all
  ultimately have "k * 1000000000 \<le> sint d \<and> sint d < k * 1000000000 + 1000000000"
    by linarith
  with False show ?thesis by (simp add: formatSec_def q k_def algebra_simps)
qed

subsection \<open>The claims about Allow\<close>

text \<open>
  C1. The claim: Allow prunes, counts, adds, and returns true if and only if the count before
  the add plus the new entry is at most maxJobs, so that with a window of one second and
  maxJobs = 3 four calls within the window return true, true, true, false.
  The code compares the count before the add alone with MaxJobs. Four calls within the same
  second (or across the turn of a second) with a window of one second and MaxJobs = 3 are all
  allowed; and with a window of ten seconds and one call per second, four calls are allowed
  before the fifth is refused, one more than MaxJobs.
\<close>

theorem Allow_admits_fourth_call:
  "map_sum id fst (Allows mail_limit ''id'' [1000, 1000, 1000, 1000] redis_empty)
     = Inr [True, True, True, True] \<and>
   map_sum id fst (Allows mail_limit ''id'' [1000, 1000, 1001, 1001] redis_empty)
     = Inr [True, True, True, True] \<and>
   map_sum id fst (Allows mail_limit_10s ''id'' [1000, 1001, 1002, 1003, 1004] redis_empty)
     = Inr [True, True, True, True, False]"
  by (simp add: mail_limit_def mail_limit_10s_def Allow_result redis_empty_def rate_key_def
      pruned_def Seconds_def rounds_to_next_def formatSec_def zremrangebyscore_def zadd_def
      del_key_def)

text \<open>
  C8, as stated, fails: the expiration that the key gets is not always twice the window.
  With a window of 750 milliseconds Allow hands 1.5 seconds to Expire and the key expires
  after 1 second; with the zero window the key is deleted at the end of the call and has no
  expiration at all.
\<close>

theorem Allow_expiration_not_twice_window:
  "sint (Window (RateLimit limit_750ms) * 2) = 1500000000 \<and>
   ttl_after (Allow limit_750ms 1000 True ''id'' redis_empty) (rate_key limit_750ms ''id'')
     = Some 1 \<and>
   ttl_after (Allow limit_unset 1000 True ''id'' redis_empty) (rate_key limit_unset ''id'')
     = None \<and>
   zset_after (Allow limit_unset 1000 True ''id'' redis_empty) (rate_key limit_unset ''id'')
     = []"
  by (simp add: limit_750ms_def limit_unset_def Allow_result redis_empty_def rate_key_def
      formatSec_def del_key_def ttl_after_def zset_after_def)

text \<open>
  C8, amended. Every call to Allow whose pipeline fails returns the pipeline's error. Every
  other call, for every identifier, removes from the identifier's set every recorded entry
  whose timestamp is not negative and older than now minus the window (when the window is
  negative the entry of the call itself, written after the pruning, is such an entry and
  stays), and hands twice the window, as the int64 of nanoseconds that \<open>Window * 2\<close> is, to
  Expire. When that is not positive the key is deleted at once. Otherwise the key expires
  after the whole seconds of it, or after one second when it is shorter than a second: for a
  positive window below 2^62 nanoseconds that is twice the window rounded down to whole
  seconds (one second for a window under half a second), and exactly twice the window when
  the window is a whole number of seconds.
\<close>

theorem Allow_prunes_and_expires:
  "Allow config now False identifier r = Inl RedisPipelineError \<and>
   (\<exists>ok r'. Allow config now True identifier r = Inr (ok, r') \<and>
      (\<forall>(m, s) \<in> set (zsets r (rate_key config identifier)).
         0 \<le> s \<and> s * 1000000000 < now * 1000000000 - sint (Window (RateLimit config))
         \<longrightarrow> (m, s) \<notin> set (zsets r' (rate_key config identifier))
             \<or> (sint (Window (RateLimit config)) < 0 \<and> (m, s) = (now, now))) \<and>
      (if sint (Window (RateLimit config) * 2) \<le> 0
       then zsets r' (rate_key config identifier) = [] \<and> ttl r' (rate_key config identifier) = None
       else ttl r' (rate_key config identifier) = Some (formatSec (Window (RateLimit config) * 2))) \<and>
      (0 < sint (Window (RateLimit config)) \<and> sint (Window (RateLimit config)) < 2 ^ 62 \<longrightarrow>
         (\<exists>t. ttl r' (rate_key config identifier) = Some t \<and>
              (if 2 * sint (Window (RateLimit config)) < 1000000000 then t = 1
               else t * 1000000000 \<le> 2 * sint (Window (RateLimit config)) \<and>
                    2 * sint (Window (RateLimit config)) < (t + 1) * 1000000000) \<and>
              (sint (Window (RateLimit config)) mod 1000000000 = 0 \<longrightarrow>
                 t * 1000000000 = 2 * sint (Window (RateLimit config))))))"
proof -
  let ?W = "Window (RateLimit config)"
  let ?key = "rate_key config identifier"
  obtain ok r' where A: "Allow config now True identifier r = Inr (ok, r')"
    by (simp add: Allow_result)
  have del: "zsets r' ?key = [] \<and> ttl r' ?key = None" if "sint (?W * 2) \<le> 0"
    using A that by (auto simp: Allow_result del_key_def)
  have z': "zsets r' ?key = zadd now now (pruned config now (zsets r ?key))"
    and t': "ttl r' ?key = Some (formatSec (?W * 2))" if "\<not> sint (?W * 2) \<le> 0"
    using A that by (auto simp: Allow_result)
  have prune: "(m, s) \<notin> set (zsets r' ?key) \<or> (sint ?W < 0 \<and> (m, s) = (now, now))"
    if "(m, s) \<in> set (zsets r ?key)" "0 \<le> s"
       "s * 1000000000 < now * 1000000000 - sint ?W" for m s
  proof (cases "sint (?W * 2) \<le> 0")
    case True
    with del show ?thesis by simp
  next
    case False
    from that(3) have le: "s \<le> now - Seconds ?W"
      by (rule older_in_range)
    show ?thesis
    proof (cases "s = now")
      case True
      with that(3) have "sint ?W < 0" by simp
      with le that(2) show ?thesis
        by (auto simp: z' [OF False] zadd_def pruned_def zremrangebyscore_def)
    next
      case neq: False
      with le that(2) show ?thesis
        by (auto simp: z' [OF False] zadd_def pruned_def zremrangebyscore_def)
    qed
  qed
  have exp: "if sint (?W * 2) \<le> 0 then zsets r' ?key = [] \<and> ttl r' ?key = None
             else ttl r' ?key = Some (formatSec (?W * 2))"
    using del t' by simp
  have twice: "\<exists>t. ttl r' ?key = Some t \<and>
              (if 2 * sint ?W < 1000000000 then t = 1
               else t * 1000000000 \<le> 2 * sint ?W \<and> 2 * sint ?W < (t + 1) * 1000000000) \<and>
              (sint ?W mod 1000000000 = 0 \<longrightarrow> t * 1000000000 = 2 * sint ?W)"
    if w: "0 < sint ?W" "sint ?W < 2 ^ 62"
  proof -
    from w have dbl: "sint (?W * 2) = 2 * sint ?W"
      by (rule sint_double)
    with w have pos: "0 < sint (?W * 2)" by simp
    define t where "t = formatSec (?W * 2)"
    from pos have T: "ttl r' ?key = Some t"
      unfolding t_def by (intro t') simp
    from formatSec_pos [OF pos]
    have b: "if 2 * sint ?W < 1000000000 then t = 1
             else t * 1000000000 \<le> 2 * sint ?W \<and> 2 * sint ?W < (t + 1) * 1000000000"
      unfolding t_def dbl .
    have "t * 1000000000 = 2 * sint ?W" if whole: "sint ?W mod 1000000000 = 0"
    proof -
      define k where "k = sint ?W div 1000000000"
      from whole have W: "sint ?W = k * 1000000000"
        unfolding k_def by auto
      with w(1) have "1 \<le> k" by linarith
      with b W have "t * 1000000000 \<le> 2 * k * 1000000000"
        and "2 * k * 1000000000 < (t + 1) * 1000000000"
        by (simp_all split: if_splits)
      then have "t \<le> 2 * k" and "2 * k < t + 1" by simp_all
      then have "t = 2 * k" by linarith
      with W show ?thesis by simp
    qed
    with T b show ?thesis by blast
  qed
  from A prune exp twice Allow_error show ?thesis
    by (intro conjI exI [of _ ok] exI [of _ r']) auto
qed

theorem Allow_prunes_and_expires_witness:
  "(990, 990) \<in> set (zsets
      (redis_empty\<lparr>zsets := (zsets redis_empty)(''queue_rate_limit:mail:id'' := [(990, 990)])\<rparr>)
      (rate_key mail_limit ''id'')) \<and>
   0 \<le> (990 :: int) \<and>
   990 * 1000000000 < 1000 * 1000000000 - sint (Window (RateLimit mail_limit)) \<and>
   (990, 990) \<notin> set (zset_after
      (Allow mail_limit 1000 True ''id''
         (redis_empty\<lparr>zsets := (zsets redis_empty)(''queue_rate_limit:mail:id'' := [(990, 990)])\<rparr>))
      (rate_key mail_limit ''id'')) \<and>
   sint (Window (RateLimit mail_limit)) mod 1000000000 = 0 \<and>
   ttl_after
      (Allow mail_limit 1000 True ''id''
         (redis_empty\<lparr>zsets := (zsets redis_empty)(''queue_rate_limit:mail:id'' := [(990, 990)])\<rparr>))
      (rate_key mail_limit ''id'') = Some 2 \<and>
   2 * 1000000000 = 2 * sint (Window (RateLimit mail_limit))"
proof -
  let ?r = "redis_empty\<lparr>zsets := (zsets redis_empty)(''queue_rate_limit:mail:id'' := [(990, 990)])\<rparr>"
  let ?key = "rate_key mail_limit ''id''"
  let ?W = "Window (RateLimit mail_limit)"
  from Allow_prunes_and_expires [of mail_limit 1000 "''id''" ?r]
  obtain ok r' where A: "Allow mail_limit 1000 True ''id'' ?r = Inr (ok, r')"
    and P: "\<forall>(m, s) \<in> set (zsets ?r ?key).
              0 \<le> s \<and> s * 1000000000 < 1000 * 1000000000 - sint ?W
              \<longrightarrow> (m, s) \<notin> set (zsets r' ?key) \<or> (sint ?W < 0 \<and> (m, s) = (1000, 1000))"
    and T: "0 < sint ?W \<and> sint ?W < 2 ^ 62 \<longrightarrow>
              (\<exists>t. ttl r' ?key = Some t \<and>
                 (if 2 * sint ?W < 1000000000 then t = 1
                  else t * 1000000000 \<le> 2 * sint ?W \<and> 2 * sint ?W < (t + 1) * 1000000000) \<and>
                 (sint ?W mod 1000000000 = 0 \<longrightarrow> t * 1000000000 = 2 * sint ?W))"
    by blast
  have W: "sint ?W = 1000000000"
    by (simp add: mail_limit_def)
  have mem: "(990, 990) \<in> set (zsets ?r ?key)"
    by (simp add: rate_key_def mail_limit_def)
  have old: "0 \<le> (990 :: int)" "990 * 1000000000 < 1000 * 1000000000 - sint ?W"
    by (simp_all add: W)
  from P mem old have gone: "(990, 990) \<notin> set (zsets r' ?key)"
    by (auto simp: W)
  from T obtain t where "ttl r' ?key = Some t" "t * 1000000000 = 2 * sint ?W"
    by (auto simp: W)
  then have two: "ttl r' ?key = Some 2"
    by (simp add: W)
  from mem old gone two show ?thesis
    by (simp add: A ttl_after_def zset_after_def W)
qed

text \<open>
  C10. The member that Allow adds is the Unix second itself. A second successful call for the
  same identifier at the same second leaves Redis exactly as the first call left it: it adds
  no entry of its own, the recorded count does not grow, and the two calls together add at
  most one entry to what was recorded before them.
\<close>

theorem Allow_same_second:
  assumes "Allow config now True identifier r = Inr (ok1, r1)"
      and "Allow config now True identifier r1 = Inr (ok2, r2)"
  shows "r2 = r1 \<and>
         length (zsets r2 (rate_key config identifier))
           \<le> length (zsets r (rate_key config identifier)) + 1"
proof (cases "sint (Window (RateLimit config) * 2) \<le> 0")
  case True
  with assms show ?thesis by (auto simp: Allow_result del_key_def)
next
  case False
  with assms(1) have r1: "r1 = r\<lparr>zsets := (zsets r)(rate_key config identifier :=
                       zadd now now (pruned config now (zsets r (rate_key config identifier)))),
                  ttl := (ttl r)(rate_key config identifier \<mapsto>
                            formatSec (Window (RateLimit config) * 2))\<rparr>"
    by (simp add: Allow_result)
  from False assms(2) have "r2 = r1"
    by (simp add: Allow_result r1 pruned_zadd_pruned)
  moreover have "length (zsets r1 (rate_key config identifier))
           \<le> length (zsets r (rate_key config identifier)) + 1"
    by (simp add: r1 length_zadd_pruned)
  ultimately show ?thesis by simp
qed

theorem Allow_same_second_witness:
  "Allow mail_limit 1000 True ''id'' redis_empty
     = Inr (True, \<lparr>zsets = (\<lambda>k. [])(''queue_rate_limit:mail:id'' := [(1000, 1000)]),
                  ttl = (\<lambda>k. None)(''queue_rate_limit:mail:id'' \<mapsto> 2)\<rparr>) \<and>
   Allow mail_limit 1000 True ''id''
       \<lparr>zsets = (\<lambda>k. [])(''queue_rate_limit:mail:id'' := [(1000, 1000)]),
        ttl = (\<lambda>k. None)(''queue_rate_limit:mail:id'' \<mapsto> 2)\<rparr>
     = Inr (True, \<lparr>zsets = (\<lambda>k. [])(''queue_rate_limit:mail:id'' := [(1000, 1000)]),
                  ttl = (\<lambda>k. None)(''queue_rate_limit:mail:id'' \<mapsto> 2)\<rparr>) \<and>
   length (zsets \<lparr>zsets = (\<lambda>k. [])(''queue_rate_limit:mail:id'' := [(1000, 1000)]),
                 ttl = (\<lambda>k. None)(''queue_rate_limit:mail:id'' \<mapsto> 2)\<rparr>
             (rate_key mail_limit ''id''))
     \<le> length (zsets redis_empty (rate_key mail_limit ''id'')) + 1"
proof -
  have h1: "Allow mail_limit 1000 True ''id'' redis_empty
     = Inr (True, \<lparr>zsets = (\<lambda>k. [])(''queue_rate_limit:mail:id'' := [(1000, 1000)]),
                  ttl = (\<lambda>k. None)(''queue_rate_limit:mail:id'' \<mapsto> 2)\<rparr>)"
    by (simp add: mail_limit_def Allow_result redis_empty_def rate_key_def
        pruned_def Seconds_def rounds_to_next_def formatSec_def zremrangebyscore_def zadd_def
        del_key_def)
  have h2: "Allow mail_limit 1000 True ''id''
       \<lparr>zsets = (\<lambda>k. [])(''queue_rate_limit:mail:id'' := [(1000, 1000)]),
        ttl = (\<lambda>k. None)(''queue_rate_limit:mail:id'' \<mapsto> 2)\<rparr>
     = Inr (True, \<lparr>zsets = (\<lambda>k. [])(''queue_rate_limit:mail:id'' := [(1000, 1000)]),
                  ttl = (\<lambda>k. None)(''queue_rate_limit:mail:id'' \<mapsto> 2)\<rparr>)"
    by (simp add: mail_limit_def Allow_result rate_key_def
        pruned_def Seconds_def rounds_to_next_def formatSec_def zremrangebyscore_def zadd_def
        del_key_def)
  from Allow_same_second [OF h1 h2] h1 h2 show ?thesis
    by simp
qed

section \<open>Properties of the event bus\<close>

lemma start_goroutines_eq:
  "start_goroutines hs data p = p\<lparr>goroutines := goroutines p @ map (\<lambda>h. (h, data)) hs\<rparr>"
  by (induction hs arbitrary: p) auto

lemma handlers_On:
  "handlers (bus (On event h p)) e =
     (if e = event then Some (registered (bus p) event @ [h]) else handlers (bus p) e)"
  by (simp add: On_def)

lemma registered_On:
  "registered (bus (On event h p)) e =
     (if e = event then registered (bus p) event @ [h] else registered (bus p) e)"
  by (simp add: registered_def handlers_On)

lemma handlers_On_all_None:
  "handlers (bus p) event = None \<Longrightarrow> event \<notin> fst ` set regs \<Longrightarrow>
   handlers (bus (On_all regs p)) event = None"
  by (induction regs arbitrary: p) (auto simp: handlers_On)

text \<open>
  C3. On a bus that was new before the registrations \<open>regs\<close> were made, Emit for an event that
  none of them names returns the process as it was: no goroutine is started, nothing is
  logged, the registry is the same. Emit has no error result and no statement that can panic.
\<close>

theorem Emit_without_handlers:
  assumes "bus p = NewEventBus" and "event \<notin> fst ` set regs"
  shows "Emit event data (On_all regs p) = On_all regs p"
proof -
  from assms(1) have "handlers (bus p) event = None"
    by (simp add: NewEventBus_def)
  then have "handlers (bus (On_all regs p)) event = None"
    using assms(2) by (rule handlers_On_all_None)
  then show ?thesis by (simp add: Emit_def)
qed

theorem Emit_without_handlers_witness:
  "bus (new_process (0::nat) :: (nat, int, nat) process) = NewEventBus \<and>
   ''team.deleted'' \<notin> fst ` set [(''team.created'', 1::nat), (''user.created'', 2)] \<and>
   Emit ''team.deleted'' (7::int) (On_all [(''team.created'', 1), (''user.created'', 2)] (new_process (0::nat)))
     = (On_all [(''team.created'', 1::nat), (''user.created'', 2)] (new_process 0) :: (nat, int, nat) process)"
proof -
  have h1: "bus (new_process (0::nat) :: (nat, int, nat) process) = NewEventBus"
    by (simp add: new_process_def)
  have h2: "''team.deleted'' \<notin> fst ` set [(''team.created'', 1::nat), (''user.created'', 2)]"
    by simp
  from Emit_without_handlers [OF h1 h2] h1 h2 show ?thesis by blast
qed

lemma handler_goroutine_Returns:
  "\<exists>p'. handler_goroutine call g p = Returns p' \<and> invoked p' = invoked p @ [g]
     \<and> goroutines p' = goroutines p"
  by (cases g) (auto simp: handler_goroutine_def defer_recover_def split: exit.splits)

lemma mset_without_nth:
  assumes "i < length xs"
  shows "mset xs = mset (take i xs @ drop (Suc i) xs) + {#xs ! i#}"
proof -
  from assms have "xs = take i xs @ xs ! i # drop (Suc i) xs"
    by (rule id_take_nth_drop)
  then have "mset xs = mset (take i xs @ xs ! i # drop (Suc i) xs)"
    by (rule arg_cong)
  then show ?thesis by simp
qed

lemma run_schedule_Returns:
  "\<exists>p'. run_schedule call sched p = Returns p' \<and>
        mset (invoked p') + mset (goroutines p') = mset (invoked p) + mset (goroutines p)"
proof (induction sched arbitrary: p)
  case Nil
  then show ?case by simp
next
  case (Cons i sched)
  show ?case
  proof (cases "i < length (goroutines p)")
    case False
    with Cons.IH [of p] show ?thesis by simp
  next
    case True
    let ?q = "p\<lparr>goroutines := take i (goroutines p) @ drop (Suc i) (goroutines p)\<rparr>"
    obtain p1 where p1: "handler_goroutine call (goroutines p ! i) ?q = Returns p1"
      "invoked p1 = invoked ?q @ [goroutines p ! i]" "goroutines p1 = goroutines ?q"
      using handler_goroutine_Returns [of call "goroutines p ! i" ?q] by blast
    from True have split: "mset (goroutines p) = mset (goroutines ?q) + {#goroutines p ! i#}"
      using mset_without_nth [of i "goroutines p"] by simp
    from Cons.IH [of p1] obtain p' where p': "run_schedule call sched p1 = Returns p'"
      "mset (invoked p') + mset (goroutines p') = mset (invoked p1) + mset (goroutines p1)"
      by blast
    from True p1 p' split show ?thesis by simp
  qed
qed

text \<open>
  C4. When handlers are registered for the event, Emit starts one goroutine for each of them
  and calls none itself, so that no handler's panic can reach the caller of Emit or stop
  the loop. Whatever the handlers do and in whatever order the goroutines run, the run
  never ends in a panic, and every started goroutine has either run its handler once or is
  still waiting to; a handler that panics is recovered in its own goroutine, which logs
  \<open>Panic in event handler: panic: v\<close> and returns.
\<close>

theorem Emit_handler_panic_recovered:
  assumes "handlers (bus p) event = Some hs"
  shows "goroutines (Emit event data p) = goroutines p @ map (\<lambda>h. (h, data)) hs \<and>
         invoked (Emit event data p) = invoked p \<and> app (Emit event data p) = app p \<and>
         (\<exists>p'. run_schedule call sched (Emit event data p) = Returns p' \<and>
               mset (invoked p') + mset (goroutines p')
                 = mset (invoked p) + mset (goroutines p) + mset (map (\<lambda>h. (h, data)) hs)) \<and>
         (\<forall>h v s q. call h data (app q) = Panics v s \<longrightarrow>
            handler_goroutine call (h, data) q =
              Returns (q\<lparr>invoked := invoked q @ [(h, data)], app := s,
                         console := console q @ [(ERROR, ''Panic in event handler: panic: '' @ v)]\<rparr>))"
proof -
  have E: "Emit event data p =
             p\<lparr>console := console p @ [(INFO, ''Emitting event: '' @ event)],
               goroutines := goroutines p @ map (\<lambda>h. (h, data)) hs\<rparr>"
    using assms by (simp add: Emit_def start_goroutines_eq)
  obtain p' where "run_schedule call sched (Emit event data p) = Returns p'"
    "mset (invoked p') + mset (goroutines p')
       = mset (invoked (Emit event data p)) + mset (goroutines (Emit event data p))"
    using run_schedule_Returns [of call sched "Emit event data p"] by blast
  then have "\<exists>p'. run_schedule call sched (Emit event data p) = Returns p' \<and>
               mset (invoked p') + mset (goroutines p')
                 = mset (invoked p) + mset (goroutines p) + mset (map (\<lambda>h. (h, data)) hs)"
    by (simp add: E)
  moreover have "handler_goroutine call (h, data) q =
              Returns (q\<lparr>invoked := invoked q @ [(h, data)], app := s,
                         console := console q @ [(ERROR, ''Panic in event handler: panic: '' @ v)]\<rparr>)"
    if "call h data (app q) = Panics v s" for h v s q
    using that by (simp add: handler_goroutine_def defer_recover_def)
  ultimately show ?thesis by (simp add: E)
qed

theorem Emit_handler_panic_recovered_witness:
  "handlers (bus (On_all [(''e'', 0), (''e'', 1)] (new_process 0) :: (nat, int, nat) process)) ''e''
     = Some [0, 1] \<and>
   goroutines (Emit ''e'' 7 (On_all [(''e'', 0), (''e'', 1)] (new_process 0) :: (nat, int, nat) process))
     = [(0, 7), (1, 7)] \<and>
   (case run_schedule counting [0, 0]
           (Emit ''e'' 7 (On_all [(''e'', 0), (''e'', 1)] (new_process 0) :: (nat, int, nat) process)) of
      Returns p' \<Rightarrow> invoked p' = [(0, 7), (1, 7)] \<and> goroutines p' = [] \<and> app p' = 1 \<and>
                     last (console p') = (ERROR, ''Panic in event handler: panic: boom'')
    | Panics v p' \<Rightarrow> False)"
proof -
  have h: "handlers (bus (On_all [(''e'', 0), (''e'', 1)] (new_process 0) :: (nat, int, nat) process)) ''e''
     = Some [0, 1]"
    by (simp add: On_def new_process_def NewEventBus_def registered_def)
  from Emit_handler_panic_recovered [OF h, of 7 counting "[0, 0]"] h show ?thesis
    by (simp add: On_def new_process_def NewEventBus_def registered_def Emit_def
        handler_goroutine_def defer_recover_def counting_def)
qed

text \<open>
  C9. When handlers are registered for the event, Emit starts one goroutine of its own for
  each handler and returns: at its return no handler has been called, the handlers' state is
  untouched, and what Emit returns does not depend on what the handlers do. Each started
  goroutine can be the next one to run, whichever of the others have not run yet, and it
  then calls its own handler and leaves the others waiting as they were.
\<close>

theorem Emit_fire_and_forget:
  assumes "handlers (bus p) event = Some hs"
  shows "goroutines (Emit event data p) = goroutines p @ map (\<lambda>h. (h, data)) hs \<and>
         invoked (Emit event data p) = invoked p \<and>
         app (Emit event data p) = app p \<and>
         bus (Emit event data p) = bus p \<and>
         (\<forall>i < length (goroutines (Emit event data p)).
            \<exists>p'. run_schedule call [i] (Emit event data p) = Returns p' \<and>
                 invoked p' = invoked p @ [goroutines (Emit event data p) ! i] \<and>
                 goroutines p' = take i (goroutines (Emit event data p))
                                 @ drop (Suc i) (goroutines (Emit event data p)))"
proof -
  let ?q = "Emit event data p"
  have E: "?q = p\<lparr>console := console p @ [(INFO, ''Emitting event: '' @ event)],
                  goroutines := goroutines p @ map (\<lambda>h. (h, data)) hs\<rparr>"
    using assms by (simp add: Emit_def start_goroutines_eq)
  have "\<exists>p'. run_schedule call [i] ?q = Returns p' \<and>
             invoked p' = invoked p @ [goroutines ?q ! i] \<and>
             goroutines p' = take i (goroutines ?q) @ drop (Suc i) (goroutines ?q)"
    if i: "i < length (goroutines ?q)" for i
  proof -
    let ?rest = "?q\<lparr>goroutines := take i (goroutines ?q) @ drop (Suc i) (goroutines ?q)\<rparr>"
    obtain p1 where p1: "handler_goroutine call (goroutines ?q ! i) ?rest = Returns p1"
      "invoked p1 = invoked ?rest @ [goroutines ?q ! i]" "goroutines p1 = goroutines ?rest"
      using handler_goroutine_Returns [of call "goroutines ?q ! i" ?rest] by blast
    from i p1(1) have "run_schedule call [i] ?q = Returns p1" by simp
    moreover from p1(2) have "invoked p1 = invoked p @ [goroutines ?q ! i]"
      by (simp add: E)
    moreover from p1(3) have
      "goroutines p1 = take i (goroutines ?q) @ drop (Suc i) (goroutines ?q)"
      by simp
    ultimately show ?thesis by blast
  qed
  then show ?thesis by (simp add: E)
qed

theorem Emit_fire_and_forget_witness:
  "handlers (bus (On_all [(''e'', 0), (''e'', 1)] (new_process 0) :: (nat, int, nat) process)) ''e''
     = Some [0, 1] \<and>
   (1 :: nat) < length (goroutines
      (Emit ''e'' 7 (On_all [(''e'', 0), (''e'', 1)] (new_process 0) :: (nat, int, nat) process))) \<and>
   invoked (Emit ''e'' 7 (On_all [(''e'', 0), (''e'', 1)] (new_process 0) :: (nat, int, nat) process))
     = [] \<and>
   (case run_schedule counting [1]
           (Emit ''e'' 7 (On_all [(''e'', 0), (''e'', 1)] (new_process 0) :: (nat, int, nat) process)) of
      Returns p' \<Rightarrow> invoked p' = [(1, 7)] \<and> goroutines p' = [(0, 7)] \<and> app p' = 1
    | Panics v p' \<Rightarrow> False)"
proof -
  have h: "handlers (bus (On_all [(''e'', 0), (''e'', 1)] (new_process 0) :: (nat, int, nat) process)) ''e''
     = Some [0, 1]"
    by (simp add: On_def new_process_def NewEventBus_def registered_def)
  from Emit_fire_and_forget [OF h, of 7 counting] h show ?thesis
    by (simp add: On_def new_process_def NewEventBus_def registered_def Emit_def
        handler_goroutine_def defer_recover_def counting_def)
qed

lemma mset_pair_same:
  assumes "mset xs = {#a, a#}"
  shows "xs = [a, a]"
proof -
  from assms have "size (mset xs) = size {#a, a#}" by simp
  then have len: "length xs = 2" by simp
  from assms have "set_mset (mset xs) = set_mset {#a, a#}" by simp
  then have "set xs = {a}" by simp
  with len have "xs = replicate 2 a"
    by (intro replicate_eqI) auto
  then show ?thesis by (simp add: numeral_2_eq_2)
qed

lemma run_fifo:
  "\<exists>p'. run_schedule call (replicate (length (goroutines p)) 0) p = Returns p' \<and>
        goroutines p' = [] \<and> invoked p' = invoked p @ goroutines p"
proof (induction "goroutines p" arbitrary: p)
  case Nil
  then show ?case by simp
next
  case (Cons g gs)
  let ?q = "p\<lparr>goroutines := gs\<rparr>"
  from Cons.hyps(2) have gp: "goroutines p = g # gs" by simp
  obtain p1 where p1: "handler_goroutine call g ?q = Returns p1"
    "invoked p1 = invoked ?q @ [g]" "goroutines p1 = goroutines ?q"
    using handler_goroutine_Returns [of call g ?q] by blast
  then have "gs = goroutines p1" by simp
  from Cons.hyps(1) [OF this] obtain p' where
    "run_schedule call (replicate (length (goroutines p1)) 0) p1 = Returns p'"
    "goroutines p' = []" "invoked p' = invoked p1 @ goroutines p1"
    by blast
  with p1 gp show ?case by simp
qed

text \<open>
  C5. Registering the same handler twice for an event appends it twice to the event's
  handler list. On a new bus, Emit then starts exactly two goroutines for it, and once both
  have run, in either order, the handler has been called exactly twice with the payload.
\<close>

theorem On_twice_invoked_twice:
  "registered (bus (On event h (On event h p))) event = registered (bus p) event @ [h, h] \<and>
   goroutines (Emit event data (On event h (On event h (new_process s)))) = [(h, data), (h, data)] \<and>
   (\<exists>p'. run_schedule call [0, 0] (Emit event data (On event h (On event h (new_process s))))
            = Returns p' \<and> goroutines p' = [] \<and> invoked p' = [(h, data), (h, data)]) \<and>
   (\<exists>p'. run_schedule call sched (Emit event data (On event h (On event h (new_process s))))
            = Returns p' \<and> (goroutines p' = [] \<longrightarrow> invoked p' = [(h, data), (h, data)]))"
proof -
  let ?p = "Emit event data (On event h (On event h (new_process s)))"
  have reg: "registered (bus (On event h (On event h p))) event = registered (bus p) event @ [h, h]"
    by (simp add: registered_On)
  have g: "goroutines ?p = [(h, data), (h, data)]" and i: "invoked ?p = []"
    by (simp_all add: Emit_def handlers_On registered_On start_goroutines_eq)
       (simp_all add: new_process_def registered_def NewEventBus_def On_def)
  from run_fifo [of call ?p]
  have fifo: "\<exists>p'. run_schedule call [0, 0] ?p = Returns p' \<and> goroutines p' = [] \<and>
               invoked p' = [(h, data), (h, data)]"
    by (simp add: g i numeral_2_eq_2)
  obtain p' where p': "run_schedule call sched ?p = Returns p'"
    "mset (invoked p') + mset (goroutines p') = mset (invoked ?p) + mset (goroutines ?p)"
    using run_schedule_Returns [of call sched ?p] by blast
  have "invoked p' = [(h, data), (h, data)]" if "goroutines p' = []"
    using p'(2) that by (intro mset_pair_same) (simp add: g i)
  with p'(1) have any: "\<exists>p'. run_schedule call sched ?p = Returns p' \<and>
       (goroutines p' = [] \<longrightarrow> invoked p' = [(h, data), (h, data)])"
    by blast
  from reg g fifo any show ?thesis by blast
qed

theorem On_twice_invoked_twice_witness:
  "registered (bus (On ''x.e'' 5 (On ''x.e'' 5 (new_process 0 :: (nat, int, nat) process)))) ''x.e'' = [5, 5] \<and>
   (case run_schedule counting [1, 0]
           (Emit ''x.e'' 1 (On ''x.e'' 5 (On ''x.e'' 5 (new_process 0 :: (nat, int, nat) process)))) of
      Returns p' \<Rightarrow> invoked p' = [(5, 1), (5, 1)] \<and> app p' = 2
    | Panics v p' \<Rightarrow> False)"
  using On_twice_invoked_twice [of "''x.e''" "5::nat" "new_process 0 :: (nat, int, nat) process" "1::int" "0::nat" counting "[1, 0]"]
  by (simp add: On_def new_process_def NewEventBus_def registered_def Emit_def
        handler_goroutine_def defer_recover_def counting_def)

section \<open>Properties of the scheduler\<close>

text \<open>
  C6. Apply of the CronSchedule option sets NextProcessAt to one hour after now when the
  expression does not parse, and to the schedule's next time after now when it does. It has
  no error result.
\<close>

theorem Apply_cron_fallback:
  "(ParseStandard e = Inl err \<longrightarrow>
      Apply ParseStandard Next now (CronSchedule e) info = info\<lparr>NextProcessAt := now + 3600000000000\<rparr>) \<and>
   (ParseStandard e = Inr schedule \<longrightarrow>
      Apply ParseStandard Next now (CronSchedule e) info = info\<lparr>NextProcessAt := Next schedule now\<rparr>)"
  by (simp add: Apply_def CronSchedule_def Hour_def)

theorem Apply_cron_fallback_witness:
  "parse_every_minute ''every minute'' = Inl (LibError ''bad spec'') \<and>
   Apply parse_every_minute next_after_delay 1000 (CronSchedule ''every minute'') \<lparr>NextProcessAt = 0\<rparr>
     = \<lparr>NextProcessAt = 3600000001000\<rparr> \<and>
   parse_every_minute ''@every 1m'' = Inr 60000000000 \<and>
   Apply parse_every_minute next_after_delay 1000 (CronSchedule ''@every 1m'') \<lparr>NextProcessAt = 0\<rparr>
     = \<lparr>NextProcessAt = 60000001000\<rparr>"
proof -
  have h1: "parse_every_minute ''every minute'' = Inl (LibError ''bad spec'')"
    by (simp add: parse_every_minute_def)
  have h2: "parse_every_minute ''@every 1m'' = Inr 60000000000"
    by (simp add: parse_every_minute_def)
  from Apply_cron_fallback [where ParseStandard = parse_every_minute and e = "''every minute''"
         and err = "LibError ''bad spec''" and Next = next_after_delay and now = 1000
         and info = "\<lparr>NextProcessAt = 0\<rparr>"] h1
  have a: "Apply parse_every_minute next_after_delay 1000 (CronSchedule ''every minute'')
             \<lparr>NextProcessAt = 0\<rparr> = \<lparr>NextProcessAt = 3600000001000\<rparr>"
    by simp
  from Apply_cron_fallback [where ParseStandard = parse_every_minute and e = "''@every 1m''"
         and schedule = 60000000000 and Next = next_after_delay and now = 1000
         and info = "\<lparr>NextProcessAt = 0\<rparr>"] h2
  have b: "Apply parse_every_minute next_after_delay 1000 (CronSchedule ''@every 1m'')
             \<lparr>NextProcessAt = 0\<rparr> = \<lparr>NextProcessAt = 60000001000\<rparr>"
    by (simp add: next_after_delay_def)
  from h1 a h2 b show ?thesis by blast
qed

text \<open>
  C7, as stated, fails: RegisterCustomTask returns nil on success, whatever the ID of the new
  entry. Two registrations that succeed with different entry IDs return the same value; the
  ID only appears in the log line.
\<close>

theorem RegisterCustomTask_entry_id_not_returned:
  "RegisterCustomTask (accept_as ''id-1'') ''* * * * *'' ''email:send'' ''{}'' ([] :: unit list) ((), [])
     = (None, ((), [(INFO, ''registered custom task email:send * * * * * id-1'')])) \<and>
   RegisterCustomTask (accept_as ''id-2'') ''* * * * *'' ''email:send'' ''{}'' ([] :: unit list) ((), [])
     = (None, ((), [(INFO, ''registered custom task email:send * * * * * id-2'')]))"
  by (simp add: RegisterCustomTask_def accept_as_def NewTask_def)

text \<open>
  C7, amended. RegisterCustomTask returns only an error value. When the scheduler's Register
  returns an entry ID, the result is nil and the ID is written to the log; when Register
  returns an error, as it does for a spec that does not parse, the result is that error
  wrapped as \<open>failed to register custom task\<close>, and nothing is logged.
\<close>

theorem RegisterCustomTask_returns_error_only:
  "(Register spec (NewTask taskType bytes options) sch = (Inr entryID, sch') \<longrightarrow>
      RegisterCustomTask Register spec taskType bytes options (sch, out)
        = (None, (sch', out @ [(INFO, ''registered custom task '' @ taskType @ '' '' @ spec
                                        @ '' '' @ entryID)]))) \<and>
   (Register spec (NewTask taskType bytes options) sch = (Inl err, sch') \<longrightarrow>
      RegisterCustomTask Register spec taskType bytes options (sch, out)
        = (Some (Errorf ''failed to register custom task: %w'' err), (sch', out)))"
  by (simp add: RegisterCustomTask_def)

theorem RegisterCustomTask_returns_error_only_witness:
  "every_minute_only ''@every 1m'' (NewTask ''email:send'' ''{}'' ([] :: unit list)) 0 = (Inr ''e'', 1) \<and>
   RegisterCustomTask every_minute_only ''@every 1m'' ''email:send'' ''{}'' ([] :: unit list) (0, [])
     = (None, (1, [(INFO, ''registered custom task email:send @every 1m e'')])) \<and>
   every_minute_only ''every minute'' (NewTask ''email:send'' ''{}'' ([] :: unit list)) 0
     = (Inl (LibError ''bad spec''), 0) \<and>
   RegisterCustomTask every_minute_only ''every minute'' ''email:send'' ''{}'' ([] :: unit list) (0, [])
     = (Some (Errorf ''failed to register custom task: %w'' (LibError ''bad spec'')), (0, []))"
proof -
  have h1: "every_minute_only ''@every 1m'' (NewTask ''email:send'' ''{}'' ([] :: unit list)) 0
              = (Inr ''e'', 1)"
    by (simp add: every_minute_only_def)
  have h2: "every_minute_only ''every minute'' (NewTask ''email:send'' ''{}'' ([] :: unit list)) 0
              = (Inl (LibError ''bad spec''), 0)"
    by (simp add: every_minute_only_def)
  from RegisterCustomTask_returns_error_only
         [where Register = every_minute_only and spec = "''@every 1m''"
            and taskType = "''email:send''" and bytes = "''{}''" and options = "[] :: unit list"
            and sch = 0 and entryID = "''e''" and sch' = 1 and out = "[]"] h1
  have a: "RegisterCustomTask every_minute_only ''@every 1m'' ''email:send'' ''{}'' ([] :: unit list) (0, [])
     = (None, (1, [(INFO, ''registered custom task email:send @every 1m e'')]))"
    by simp
  from RegisterCustomTask_returns_error_only
         [where Register = every_minute_only and spec = "''every minute''"
            and taskType = "''email:send''" and bytes = "''{}''" and options = "[] :: unit list"
            and sch = 0 and err = "LibError ''bad spec''" and sch' = 0 and out = "[]"] h2
  have b: "RegisterCustomTask every_minute_only ''every minute'' ''email:send'' ''{}'' ([] :: unit list) (0, [])
     = (Some (Errorf ''failed to register custom task: %w'' (LibError ''bad spec'')), (0, []))"
    by simp
  from h1 a h2 b show ?thesis by blast
qed

section \<open>Properties of the worker server\<close>

text \<open>
  C2. NewServer configures exactly the queues critical, default and low with the weights 6, 3
  and 1, and StrictPriority. With this configuration the processor asks the queues in the
  order critical, default, low, so that a task is taken from a queue only when every queue
  of higher weight has none ready.
\<close>

theorem NewServer_queues_strict:
  "Queues (server_cfg (server (NewServer redisAddr username password db h lg)))
     = [(''critical'', 6), (''default'', 3), (''low'', 1)] \<and>
   StrictPriority (server_cfg (server (NewServer redisAddr username password db h lg))) \<and>
   processor_queues (server_cfg (server (NewServer redisAddr username password db h lg))) shuffled
     = [''critical'', ''default'', ''low''] \<and>
   dequeue_from
     (processor_queues (server_cfg (server (NewServer redisAddr username password db h lg))) shuffled)
     ready
     = (if 0 < ready ''critical'' then Some ''critical''
        else if 0 < ready ''default'' then Some ''default''
        else if 0 < ready ''low'' then Some ''low''
        else None)"
  by (simp add: NewServer_def processor_queues_def sortByPriority_def dequeue_from_def
      QueueCritical_def QueueDefault_def QueueLow_def)

theorem NewServer_queues_strict_witness:
  "dequeue_from
     (processor_queues (server_cfg (server (NewServer ''localhost:6379'' '''' '''' 0 () ())))
        [''low'', ''critical'', ''default''])
     some_ready
     = Some ''default''"
proof -
  from NewServer_queues_strict [of "''localhost:6379''" "''''" "''''" 0 "()" "()"
      "[''low'', ''critical'', ''default'']" some_ready]
  have "dequeue_from
     (processor_queues (server_cfg (server (NewServer ''localhost:6379'' '''' '''' 0 () ())))
        [''low'', ''critical'', ''default''])
     some_ready
     = (if 0 < some_ready ''critical'' then Some ''critical''
        else if 0 < some_ready ''default'' then Some ''default''
        else if 0 < some_ready ''low'' then Some ''low''
        else None)"
    by blast
  then show ?thesis by (simp add: some_ready_def)
qed

end
